theory Spec2Isabelle
  imports Main "HOL-Library.Word"
begin

unbundle bit_operations_syntax

section \<open>Go's path package, as upstream.go uses it\<close>

text \<open>
  upstream.go calls \<open>path.Clean\<close> and \<open>path.Join\<close> of Go's standard library. A Go string
  is a sequence of bytes, and so is an Isabelle \<open>string\<close>. A path is read as its
  elements, the byte runs between slashes.
\<close>

fun split_slash :: "string \<Rightarrow> string list" where
  "split_slash [] = [[]]"
| "split_slash (c # cs) =
     (if c = CHR ''/'' then [] # split_slash cs
      else (case split_slash cs of [] \<Rightarrow> [[c]] | x # xs \<Rightarrow> (c # x) # xs))"

fun join_slash :: "string list \<Rightarrow> string" where
  "join_slash [] = []"
| "join_slash [x] = x"
| "join_slash (x # y # ys) = x @ CHR ''/'' # join_slash (y # ys)"

text \<open>
  One round of the loop of \<open>path.Clean\<close>: the element \<open>c\<close> is read and the elements
  written so far are \<open>out\<close>. An empty element and \<open>.\<close> are dropped. The element \<open>..\<close>
  removes the last element written, unless there is none or it is a \<open>..\<close> that had to
  stay: then it is dropped on a rooted path and written on a relative one. Any other
  element is written.
\<close>

definition clean_step :: "bool \<Rightarrow> string list \<Rightarrow> string \<Rightarrow> string list" where
  "clean_step rooted out c =
     (if c = [] then out
      else if c = ''.'' then out
      else if c = ''..'' then
        (if out \<noteq> [] \<and> last out \<noteq> ''..'' then butlast out
         else if \<not> rooted then out @ [''..'']
         else out)
      else out @ [c])"

text \<open>
  Modelled from the spec: \<open>path.Clean\<close> belongs to Go's standard library and is not part
  of the repository's source. The spec describes it as collapsing \<open>.\<close>, \<open>..\<close> and
  redundant separators, as standard path canonicalization; the definition follows the
  library's rules: the empty path becomes \<open>.\<close>, a rooted path keeps its leading slash, and
  a relative path with no element left becomes \<open>.\<close>.
\<close>

definition Clean :: "string \<Rightarrow> string" where
  "Clean path =
     (if path = [] then ''.''
      else
        let rooted = (hd path = CHR ''/'');
            out = foldl (clean_step rooted) [] (split_slash path)
        in if rooted then CHR ''/'' # join_slash out
           else if out = [] then ''.''
           else join_slash out)"

text \<open>
  Modelled from the spec: \<open>path.Join\<close> belongs to Go's standard library as well. It
  ignores empty arguments, puts a slash between the others and cleans the result; with
  no non-empty argument it returns the empty string.
\<close>

definition Join :: "string list \<Rightarrow> string" where
  "Join elem =
     (let es = filter (\<lambda>e. e \<noteq> []) elem
      in if es = [] then [] else Clean (join_slash es))"

section \<open>The manifest of upstream.go\<close>

record Source =
  Name :: string
  Owner :: string
  Url :: string
  Branch :: string
  Mapping :: "(string \<times> string) list"

record Manifest =
  Sources :: "Source list"

section \<open>Formatting and random strings\<close>

abbreviation sq :: string where "sq \<equiv> [CHR 0x27]"
abbreviation dq :: string where "dq \<equiv> [CHR 0x22]"
abbreviation bslash :: string where "bslash \<equiv> [CHR 0x5C]"
abbreviation tab :: string where "tab \<equiv> [CHR 0x09]"

text \<open>
  The verb \<open>%d\<close> of \<open>fmt\<close>, on the values the program prints with it: a slice length
  and a slice index, which are never negative.
\<close>

definition digit :: "nat \<Rightarrow> char" where
  "digit n = ''0123456789'' ! n"

fun itoa :: "nat \<Rightarrow> string" where
  "itoa n = (if n < 10 then [digit n] else itoa (n div 10) @ [digit (n mod 10)])"

declare itoa.simps [simp del]

text \<open>
  \<open>hex.EncodeToString\<close>: two lower-case hexadecimal digits for each byte, the high half
  first.
\<close>

definition hextable :: string where
  "hextable = ''0123456789abcdef''"

definition EncodeToString :: "8 word list \<Rightarrow> string" where
  "EncodeToString src =
     concat (map (\<lambda>v. [hextable ! unat (drop_bit 4 v), hextable ! unat (v AND 0x0f)]) src)"

text \<open>
  The random source \<open>rand.Reader\<close> is the list of the bytes it still delivers; after
  them every read fails. \<open>io.ReadFull\<close> fills a buffer of \<open>n\<close> bytes or returns an
  error.
\<close>

type_synonym reader = "8 word list"

definition ReadFull :: "reader \<Rightarrow> nat \<Rightarrow> string + (8 word list \<times> reader)" where
  "ReadFull r n =
     (if length r < n then Inl (if r = [] then ''EOF'' else ''unexpected EOF'')
      else Inr (take n r, drop n r))"

text \<open>\<open>RandomString\<close> panics (\<open>Inl\<close>) when the read fails.\<close>

definition RandomString :: "reader \<Rightarrow> string + (string \<times> reader)" where
  "RandomString r =
     (case ReadFull r 32 of
        Inl err \<Rightarrow> Inl err
      | Inr (id', r') \<Rightarrow> Inr (EncodeToString id', r'))"

section \<open>Branch names\<close>

definition dstBranch :: "string \<Rightarrow> string" where
  "dstBranch buildid = Join [''citizenkane'', buildid, ''dst'']"

definition baseBranch :: "Source \<Rightarrow> string \<Rightarrow> string" where
  "baseBranch src buildid = Join [''citizenkane'', buildid, ''base'', Name src]"

definition mapBranch :: "Source \<Rightarrow> string \<Rightarrow> nat \<Rightarrow> string" where
  "mapBranch src buildid mapid =
     Join [''citizenkane'', buildid, ''map'', Name src, itoa mapid]"

section \<open>The commands written to standard output\<close>

text \<open>
  A function of upstream.go that only prints is modelled by the text it writes to
  standard output, in the order of its \<open>Printf\<close> calls.
\<close>

definition mergeLayer :: "string \<Rightarrow> string \<Rightarrow> string" where
  "mergeLayer bottom top' =
     ''# mergeLayer('' @ bottom @ '', '' @ top' @ '')\<newline>'' @
     ''git checkout '' @ sq @ top' @ sq @ '' && git merge -X ours '' @ sq @ bottom @ sq @
     '' && git checkout '' @ sq @ bottom @ sq @ '' && git merge '' @ sq @ top' @ sq @
     ''\<newline>\<newline>''"

definition zoomIn :: "string \<Rightarrow> string \<Rightarrow> string" where
  "zoomIn branch dir =
     ''# zoomIn('' @ branch @ '', '' @ dir @ '')\<newline>'' @
     ''(cd $(git rev-parse --show-toplevel) && git filter-branch -f --subdirectory-filter '' @
     sq @ dir @ sq @ '' '' @ sq @ branch @ sq @ '')\<newline>\<newline>''"

text \<open>
  \<open>zoomOut\<close> prints its comment line, then draws a random name, which may panic, then
  prints the command. The result is the panic or the reader left, and the text written.
\<close>

definition zoomOut :: "string \<Rightarrow> string \<Rightarrow> reader \<Rightarrow> (string + reader) \<times> string" where
  "zoomOut branch dir r =
     (let out1 = ''# zoomOut('' @ branch @ '', '' @ dir @ '')\<newline>''
      in (case RandomString r of
           Inl err \<Rightarrow> (Inl err, out1)
         | Inr (s, r') \<Rightarrow>
             let tmp = take 8 s
             in (Inr r',
                 out1 @ ''(\<newline>'' @ tab @ ''cd $(git rev-parse --show-toplevel) '' @ bslash @
                 ''\<newline>'' @ tab @ ''&& git filter-branch -f --tree-filter '' @ dq @
                 ''mkdir .'' @ sq @ tmp @ sq @ '' && mv * .'' @ sq @ tmp @ sq @
                 ''/ && mkdir -p '' @ sq @ dir @ sq @ '' && mv .'' @ sq @ tmp @ sq @ ''/* '' @
                 sq @ dir @ sq @ ''/ && rm -r .'' @ sq @ tmp @ sq @ dq @ '' '' @
                 sq @ branch @ sq @ ''\<newline>)\<newline>\<newline>'')))"

definition dupBranch :: "string \<Rightarrow> string \<Rightarrow> string" where
  "dupBranch src dst =
     ''# dupBranch('' @ src @ '', '' @ dst @ '')\<newline>'' @
     ''{ git branch -D '' @ sq @ dst @ sq @ '' 2>/dev/null || true; } && git branch -f '' @
     sq @ dst @ sq @ '' '' @ sq @ src @ sq @ ''\<newline>\<newline>''"

definition fetch :: "Source \<Rightarrow> string \<Rightarrow> string" where
  "fetch src buildid =
     ''# ['' @ buildid @ ''] fetch('' @ Name src @ '')\<newline>'' @
     ''git fetch -f '' @ Url src @ '' '' @ Branch src @ '':'' @ baseBranch src buildid @
     ''\<newline>\<newline>''"

section \<open>The program\<close>

text \<open>
  What the program meets outside itself: opening a file by name gives an error or a file
  handle, reading a handle to its end gives an error or the content, and \<open>toml.Decode\<close>
  gives an error or the manifest it fills. The TOML library is not part of the
  repository, so the decoder is a parameter.
\<close>

record env =
  os_Open :: "string \<Rightarrow> string + nat"
  ioutil_ReadAll :: "nat \<Rightarrow> string + string"
  toml_Decode :: "string \<Rightarrow> string + Manifest"

text \<open>How the process ends: exit status 0, \<open>log.Fatal\<close> (status 1) or a panic (status 2).\<close>

datatype exit = Exit0 | Fatal string | Panicked string

fun exit_code :: "exit \<Rightarrow> nat" where
  "exit_code Exit0 = 0"
| "exit_code (Fatal err) = 1"
| "exit_code (Panicked err) = 2"

text \<open>The first statement of \<open>main\<close>: \<open>buildid := RandomString()[:4]\<close>.\<close>

definition new_buildid :: "reader \<Rightarrow> string + (string \<times> reader)" where
  "new_buildid r =
     (case RandomString r of
        Inl err \<Rightarrow> Inl err
      | Inr (s, r') \<Rightarrow> Inr (take 4 s, r'))"

text \<open>Opening, reading and decoding the manifest; each failure ends in \<open>log.Fatal\<close>.\<close>

definition load_manifest :: "env \<Rightarrow> string + Manifest" where
  "load_manifest e =
     (case os_Open e ''UPSTREAM'' of
        Inl err \<Rightarrow> Inl err
      | Inr f \<Rightarrow>
          (case ioutil_ReadAll e f of
             Inl err \<Rightarrow> Inl err
           | Inr data \<Rightarrow>
               (case toml_Decode e data of
                  Inl err \<Rightarrow> Inl err
                | Inr m \<Rightarrow> Inr m)))"

text \<open>
  The loop under the comment \<open>Apply defaults\<close>. The \<open>range\<close> clause copies each element
  of \<open>m.Sources\<close> into the loop variable \<open>src\<close>, a struct value. The two assignments
  change that copy, which is dropped at the end of the round: nothing is written back
  to \<open>m.Sources\<close>.
\<close>

definition defaults_body :: "Source \<Rightarrow> Source" where
  "defaults_body src0 =
     (let src = (if Branch src0 = [] then src0\<lparr>Branch := ''master''\<rparr> else src0);
          src = (if length (Mapping src) = 0 then src\<lparr>Mapping := [(''/'', ''/'')]\<rparr> else src)
      in src)"

fun defaults_loop :: "Source list \<Rightarrow> Manifest \<Rightarrow> Manifest" where
  "defaults_loop [] m = m"
| "defaults_loop (x # xs) m = (let src = defaults_body x in defaults_loop xs m)"

definition apply_defaults :: "Manifest \<Rightarrow> Manifest" where
  "apply_defaults m = defaults_loop (Sources m) m"

text \<open>The loop that fetches every named source.\<close>

fun fetch_loop :: "string \<Rightarrow> Source list \<Rightarrow> string" where
  "fetch_loop buildid [] = []"
| "fetch_loop buildid (src # srcs) =
     (if Name src = [] then ''skipping unnamed source\<newline>'' else fetch src buildid)
     @ fetch_loop buildid srcs"

text \<open>
  The body of the inner loop under the comment \<open>Apply mapping\<close>, for the mapping with
  index \<open>mapid\<close>, and the two loops. A panic in \<open>zoomOut\<close> ends the run with the text
  written so far.
\<close>

definition mapping_body ::
  "string \<Rightarrow> Source \<Rightarrow> string \<Rightarrow> nat \<Rightarrow> string \<times> string \<Rightarrow> reader \<Rightarrow> (string + reader) \<times> string"
where
  "mapping_body buildid src base mapid mapping r =
     (let from = Clean (fst mapping);
          to = Clean (snd mapping);
          mapB = mapBranch src buildid mapid;
          out1 = dupBranch base mapB;
          out2 = (if from \<noteq> ''/'' then zoomIn mapB from else [])
      in (case (if to \<noteq> [] then zoomOut mapB to r else (Inr r, [])) of
           (Inl err, out3) \<Rightarrow> (Inl err, out1 @ out2 @ out3)
         | (Inr r', out3) \<Rightarrow>
             (Inr r', out1 @ out2 @ out3 @ mergeLayer (dstBranch buildid) mapB)))"

fun mapping_loop ::
  "string \<Rightarrow> Source \<Rightarrow> string \<Rightarrow> nat \<Rightarrow> (string \<times> string) list \<Rightarrow> reader \<Rightarrow> (string + reader) \<times> string"
where
  "mapping_loop buildid src base mapid [] r = (Inr r, [])"
| "mapping_loop buildid src base mapid (mapping # rest) r =
     (case mapping_body buildid src base mapid mapping r of
        (Inl err, out) \<Rightarrow> (Inl err, out)
      | (Inr r', out) \<Rightarrow>
          (case mapping_loop buildid src base (Suc mapid) rest r' of
             (res, out') \<Rightarrow> (res, out @ out')))"

fun sources_loop :: "string \<Rightarrow> Source list \<Rightarrow> reader \<Rightarrow> (string + reader) \<times> string" where
  "sources_loop buildid [] r = (Inr r, [])"
| "sources_loop buildid (src # srcs) r =
     (case mapping_loop buildid src (baseBranch src buildid) 0 (Mapping src) r of
        (Inl err, out) \<Rightarrow> (Inl err, out)
      | (Inr r', out) \<Rightarrow>
          (case sources_loop buildid srcs r' of
             (res, out') \<Rightarrow> (res, out @ out')))"

text \<open>
  \<open>main\<close>, from the environment and the random source to the way the process ends and
  the text on standard output.
\<close>

definition main :: "env \<Rightarrow> reader \<Rightarrow> exit \<times> string" where
  "main e r0 =
     (case new_buildid r0 of
        Inl err \<Rightarrow> (Panicked err, [])
      | Inr (buildid, r1) \<Rightarrow>
          (let out1 = ''# Starting build '' @ buildid @ ''\<newline>'' @ ''set -e\<newline>''
           in (case load_manifest e of
                 Inl err \<Rightarrow> (Fatal err, out1)
               | Inr m0 \<Rightarrow>
                   (let m = apply_defaults m0;
                        out2 = ''# Loaded '' @ itoa (length (Sources m)) @
                               '' sources from ./UPSTREAM\<newline>\<newline>'';
                        out3 = fetch_loop buildid (Sources m);
                        out4 = dupBranch ''master'' (dstBranch buildid)
                    in (case sources_loop buildid (Sources m) r1 of
                          (Inl err, out5) \<Rightarrow> (Panicked err, out1 @ out2 @ out3 @ out4 @ out5)
                        | (Inr r2, out5) \<Rightarrow> (Exit0, out1 @ out2 @ out3 @ out4 @ out5))))))"

section \<open>Notions used in the statements\<close>

text \<open>
  An element that \<open>path.Clean\<close> keeps when it reads it: not empty, not \<open>.\<close>, without a
  slash (it may be \<open>..\<close>). A plain element is moreover not \<open>..\<close>.
\<close>

definition elem_ok :: "string \<Rightarrow> bool" where
  "elem_ok c = (c \<noteq> [] \<and> c \<noteq> ''.'' \<and> CHR ''/'' \<notin> set c)"

definition plain :: "string \<Rightarrow> bool" where
  "plain c = (elem_ok c \<and> c \<noteq> ''..'')"

text \<open>
  The shape of the elements \<open>path.Clean\<close> has written at any moment: some \<open>..\<close> elements
  (none on a rooted path), then kept elements other than \<open>..\<close>.
\<close>

definition cleaned :: "bool \<Rightarrow> string list \<Rightarrow> bool" where
  "cleaned rooted out =
     (\<exists>k ys. out = replicate k ''..'' @ ys \<and> ''..'' \<notin> set ys \<and> (\<forall>c \<in> set ys. elem_ok c)
        \<and> (rooted \<longrightarrow> k = 0))"

text \<open>A path made of plain elements only, such as \<open>docs\<close> or \<open>docker/docker\<close>.\<close>

definition plain_path :: "string \<Rightarrow> bool" where
  "plain_path n = (\<forall>c \<in> set (split_slash n). plain c)"

text \<open>Reading a decimal numeral back, to tell the numerals of different numbers apart.\<close>

definition digit_value :: "char \<Rightarrow> nat" where
  "digit_value c = of_char c - 48"

definition atoi :: "string \<Rightarrow> nat" where
  "atoi s = foldl (\<lambda>a c. 10 * a + digit_value c) 0 s"

text \<open>
  The elements \<open>path.Clean\<close> has written when \<open>path.Join\<close> has read \<open>citizenkane\<close> and the
  arguments \<open>pre\<close> that follow it.
\<close>

definition stack :: "string list \<Rightarrow> string list" where
  "stack pre = foldl (clean_step False) []
     (split_slash (join_slash (filter (\<lambda>e. e \<noteq> []) (''citizenkane'' # pre))))"

text \<open>A source with a name and every other field empty.\<close>

definition src_named :: "string \<Rightarrow> Source" where
  "src_named n = \<lparr>Name = n, Owner = [], Url = [], Branch = [], Mapping = []\<rparr>"

text \<open>
  An environment in which the file \<open>UPSTREAM\<close> opens, is read and decodes to the manifest
  \<open>m\<close>, and one in which the file cannot be opened.
\<close>

definition env_of :: "Manifest \<Rightarrow> env" where
  "env_of m = \<lparr>os_Open = (\<lambda>name. if name = ''UPSTREAM'' then Inr 3 else Inl ''no such file or directory''),
               ioutil_ReadAll = (\<lambda>f. Inr []),
               toml_Decode = (\<lambda>data. Inr m)\<rparr>"

definition env_missing :: env where
  "env_missing = \<lparr>os_Open = (\<lambda>name. Inl ''open UPSTREAM: no such file or directory''),
                   ioutil_ReadAll = (\<lambda>f. Inr []),
                   toml_Decode = (\<lambda>data. Inr \<lparr>Sources = []\<rparr>)\<rparr>"

text \<open>
  Three sources: the example of the spec (branch unset), a source with every field set,
  and a source without a name.
\<close>

definition docs_src :: Source where
  "docs_src = \<lparr>Name = ''docs'', Owner = [], Url = ''https://example/docs.git'', Branch = [],
               Mapping = [(''/'', ''/documentation'')]\<rparr>"

definition lib_src :: Source where
  "lib_src = \<lparr>Name = ''lib'', Owner = ''me'', Url = ''https://example/lib.git'', Branch = ''next'',
              Mapping = [(''/src/'', ''/lib'')]\<rparr>"

definition unnamed_src :: Source where
  "unnamed_src = \<lparr>Name = [], Owner = [], Url = ''https://example/x.git'', Branch = ''master'',
                  Mapping = [(''/'', ''/'')]\<rparr>"

section \<open>Splitting and joining paths\<close>


lemma split_slash_not_Nil: "split_slash s \<noteq> []"
  by (induction s) (auto split: list.splits)

lemma split_slash_no_slash: "c \<in> set (split_slash s) \<Longrightarrow> CHR ''/'' \<notin> set c"
  by (induction s arbitrary: c) (auto split: list.splits if_splits)

lemma split_slash_plain: "CHR ''/'' \<notin> set s \<Longrightarrow> split_slash s = [s]"
  by (induction s) auto

lemma split_slash_append:
  "split_slash (a @ CHR ''/'' # b) = split_slash a @ split_slash b"
proof (induction a)
  case Nil
  show ?case by simp
next
  case (Cons c cs)
  obtain x xs where xs: "split_slash cs = x # xs"
    using split_slash_not_Nil [of cs] by (cases "split_slash cs") auto
  show ?case using Cons xs by simp
qed

lemma split_join:
  "xs \<noteq> [] \<Longrightarrow> \<forall>x \<in> set xs. CHR ''/'' \<notin> set x \<Longrightarrow> split_slash (join_slash xs) = xs"
proof (induction xs rule: join_slash.induct)
  case 1
  then show ?case by simp
next
  case (2 x)
  then show ?case by (simp add: split_slash_plain)
next
  case (3 x y ys)
  then show ?case by (simp add: split_slash_append split_slash_plain)
qed

lemma cleaned_Nil: "cleaned rooted []"
  unfolding cleaned_def by (rule exI [of _ 0]) simp

lemma cleaned_step:
  assumes inv: "cleaned rooted out" and c: "CHR ''/'' \<notin> set c"
  shows "cleaned rooted (clean_step rooted out c)"
proof -
  from inv obtain k ys where out: "out = replicate k ''..'' @ ys"
    and nd: "''..'' \<notin> set ys" and ok: "\<forall>c \<in> set ys. elem_ok c" and rt: "rooted \<longrightarrow> k = 0"
    unfolding cleaned_def by blast
  consider (skip) "c = [] \<or> c = ''.''" | (dd) "c = ''..''" | (el) "c \<noteq> []" "c \<noteq> ''.''" "c \<noteq> ''..''"
    by blast
  then show ?thesis
  proof cases
    case skip
    then show ?thesis using inv by (auto simp: clean_step_def)
  next
    case dd
    show ?thesis
    proof (cases ys rule: rev_cases)
      case Nil
      then have all: "out = replicate k ''..''" using out by simp
      have lst: "out \<noteq> [] \<Longrightarrow> last out = ''..''" using all by (cases k) auto
      show ?thesis
      proof (cases rooted)
        case True
        then show ?thesis using dd lst inv by (auto simp: clean_step_def)
      next
        case False
        have "clean_step rooted out c = replicate (Suc k) ''..'' @ []"
          using dd lst False all by (auto simp: clean_step_def replicate_append_same)
        then show ?thesis unfolding cleaned_def using False by (metis empty_iff list.set(1) ball_empty)
      qed
    next
      case (snoc ys' y)
      then have "out \<noteq> []" "last out = y" "y \<noteq> ''..''" "butlast out = replicate k ''..'' @ ys'"
        using out nd by (auto simp: butlast_append)
      then have "clean_step rooted out c = replicate k ''..'' @ ys'"
        using dd by (simp add: clean_step_def)
      moreover have "''..'' \<notin> set ys'" "\<forall>c \<in> set ys'. elem_ok c" using snoc nd ok by auto
      ultimately show ?thesis unfolding cleaned_def using rt by blast
    qed
  next
    case el
    then have "clean_step rooted out c = replicate k ''..'' @ (ys @ [c])"
      using out by (simp add: clean_step_def)
    moreover have "''..'' \<notin> set (ys @ [c])" "\<forall>x \<in> set (ys @ [c]). elem_ok x"
      using el nd ok c by (auto simp: elem_ok_def)
    ultimately show ?thesis unfolding cleaned_def using rt by blast
  qed
qed

lemma cleaned_foldl:
  "cleaned rooted out \<Longrightarrow> \<forall>c \<in> set cs. CHR ''/'' \<notin> set c \<Longrightarrow>
   cleaned rooted (foldl (clean_step rooted) out cs)"
  by (induction cs arbitrary: out) (auto simp: cleaned_step)

lemma cleaned_split: "cleaned rooted (foldl (clean_step rooted) [] (split_slash p))"
  by (rule cleaned_foldl [OF cleaned_Nil]) (auto dest: split_slash_no_slash)

lemma foldl_dotdots:
  "foldl (clean_step False) (replicate j ''..'') (replicate k ''..'') = replicate (j + k) ''..''"
proof (induction k arbitrary: j)
  case 0
  show ?case by simp
next
  case (Suc k)
  have "clean_step False (replicate j ''..'') ''..'' = replicate (Suc j) ''..''"
    by (cases j) (auto simp: clean_step_def replicate_append_same)
  then show ?case using Suc [of "Suc j"] by simp
qed

lemma foldl_elems:
  "''..'' \<notin> set ys \<Longrightarrow> \<forall>c \<in> set ys. elem_ok c \<Longrightarrow>
   foldl (clean_step rooted) acc ys = acc @ ys"
  by (induction ys arbitrary: acc) (auto simp: clean_step_def elem_ok_def)

lemma foldl_cleaned:
  assumes "cleaned rooted out"
  shows "foldl (clean_step rooted) [] out = out"
proof -
  from assms obtain k ys where out: "out = replicate k ''..'' @ ys"
    and nd: "''..'' \<notin> set ys" and ok: "\<forall>c \<in> set ys. elem_ok c" and rt: "rooted \<longrightarrow> k = 0"
    unfolding cleaned_def by blast
  show ?thesis
  proof (cases rooted)
    case True
    then show ?thesis using out rt foldl_elems [OF nd ok, of rooted "[]"] by simp
  next
    case False
    have "foldl (clean_step False) [] (replicate k ''..'') = replicate k ''..''"
      using foldl_dotdots [of 0 k] by simp
    then show ?thesis using out False foldl_elems [OF nd ok, of False "replicate k ''..''"] by simp
  qed
qed

lemma cleaned_elems:
  "cleaned rooted out \<Longrightarrow> c \<in> set out \<Longrightarrow> c \<noteq> [] \<and> CHR ''/'' \<notin> set c"
  unfolding cleaned_def elem_ok_def by auto

lemma join_slash_hd:
  "out \<noteq> [] \<Longrightarrow> hd out \<noteq> [] \<Longrightarrow> join_slash out \<noteq> [] \<and> hd (join_slash out) = hd (hd out)"
  by (induction out rule: join_slash.induct) auto

lemma Clean_not_Nil: "Clean p \<noteq> []"
proof -
  let ?r = "hd p = CHR ''/''"
  let ?out = "foldl (clean_step ?r) [] (split_slash p)"
  have "?out \<noteq> [] \<Longrightarrow> join_slash ?out \<noteq> []"
    using join_slash_hd [of ?out] cleaned_elems [OF cleaned_split, of "hd ?out" ?r p] by auto
  then show ?thesis by (auto simp: Clean_def Let_def)
qed

lemma Clean_Clean: "Clean (Clean p) = Clean p"
proof (cases "p = []")
  case True
  then show ?thesis by (simp add: Clean_def clean_step_def)
next
  case False
  let ?r = "hd p = CHR ''/''"
  let ?out = "foldl (clean_step ?r) [] (split_slash p)"
  have inv: "cleaned ?r ?out" by (rule cleaned_split)
  have el: "\<forall>x \<in> set ?out. CHR ''/'' \<notin> set x" using cleaned_elems [OF inv] by blast
  show ?thesis
  proof (cases ?r)
    case True
    then have cp: "Clean p = CHR ''/'' # join_slash ?out" using False by (simp add: Clean_def)
    have "split_slash (CHR ''/'' # join_slash ?out) = [] # (if ?out = [] then [[]] else ?out)"
      using split_join [OF _ el] by auto
    then have "foldl (clean_step True) [] (split_slash (CHR ''/'' # join_slash ?out)) = ?out"
      using foldl_cleaned [OF inv] True by (auto simp: clean_step_def)
    then show ?thesis using cp by (simp add: Clean_def)
  next
    case nr: False
    show ?thesis
    proof (cases "?out = []")
      case True
      then have "Clean p = ''.''" using False nr by (simp add: Clean_def)
      then show ?thesis by (simp add: Clean_def clean_step_def)
    next
      case ne: False
      then have cp: "Clean p = join_slash ?out" using False nr by (simp add: Clean_def)
      have h: "hd ?out \<noteq> []" "CHR ''/'' \<notin> set (hd ?out)"
        using cleaned_elems [OF inv, of "hd ?out"] ne by auto
      have "hd (hd ?out) \<in> set (hd ?out)" using h(1) by (rule hd_in_set)
      then have "hd (hd ?out) \<noteq> CHR ''/''" using h(2) by metis
      then have j: "join_slash ?out \<noteq> []" "hd (join_slash ?out) \<noteq> CHR ''/''"
        using join_slash_hd [OF ne h(1)] by simp_all
      have "foldl (clean_step False) [] (split_slash (join_slash ?out)) = ?out"
        using split_join [OF ne el] foldl_cleaned [OF inv] nr by simp
      then show ?thesis using cp j ne by (simp add: Clean_def)
    qed
  qed
qed

section \<open>Decimal numerals and hexadecimal strings\<close>

lemma digit_table:
  "\<forall>k \<in> set [0..<10]. digit_value (digit k) = k \<and> digit k \<in> set ''0123456789''"
  by code_simp

lemma digit_cases:
  assumes "n < 10"
  shows "digit_value (digit n) = n \<and> digit n \<in> set ''0123456789''"
proof -
  have "n \<in> set [0..<10]" using assms by simp
  then show ?thesis using digit_table by blast
qed

lemma atoi_itoa: "atoi (itoa n) = n"
proof (induction n rule: itoa.induct)
  case (1 n)
  show ?case
  proof (cases "n < 10")
    case True
    then show ?thesis using digit_cases [of n] by (simp add: itoa.simps [of n] atoi_def)
  next
    case False
    have "n mod 10 < 10" by simp
    then have "digit_value (digit (n mod 10)) = n mod 10" using digit_cases by blast
    then show ?thesis using False 1
      by (simp add: itoa.simps [of n] atoi_def)
  qed
qed

lemma itoa_inj: "itoa m = itoa n \<Longrightarrow> m = n"
  by (metis atoi_itoa)

lemma itoa_digits: "itoa n \<noteq> [] \<and> set (itoa n) \<subseteq> set ''0123456789''"
proof (induction n rule: itoa.induct)
  case (1 n)
  show ?case
  proof (cases "n < 10")
    case True
    then show ?thesis using digit_cases [of n] by (simp add: itoa.simps [of n])
  next
    case False
    have "n mod 10 < 10" by simp
    then have "digit (n mod 10) \<in> set ''0123456789''" using digit_cases by blast
    then show ?thesis using False 1 by (simp add: itoa.simps [of n])
  qed
qed

lemma itoa_plain: "plain (itoa n)"
proof -
  have "CHR ''/'' \<notin> set (itoa n)" "CHR ''.'' \<notin> set (itoa n)" "itoa n \<noteq> []"
    using itoa_digits [of n] by auto
  then show ?thesis unfolding plain_def elem_ok_def by auto
qed

section \<open>Joined paths with plain elements at the end\<close>

lemma join_slash_snoc: "xs \<noteq> [] \<Longrightarrow> join_slash (xs @ [y]) = join_slash xs @ CHR ''/'' # y"
  by (induction xs rule: join_slash.induct) auto

lemma split_join_append:
  "xs \<noteq> [] \<Longrightarrow> \<forall>c \<in> set ys. CHR ''/'' \<notin> set c \<Longrightarrow>
   split_slash (join_slash (xs @ ys)) = split_slash (join_slash xs) @ ys"
proof (induction ys rule: rev_induct)
  case Nil
  show ?case by simp
next
  case (snoc y ys)
  have "join_slash (xs @ ys @ [y]) = join_slash (xs @ ys) @ CHR ''/'' # y"
    using join_slash_snoc [of "xs @ ys" y] snoc.prems(1) by simp
  then show ?case using snoc by (simp add: split_slash_append split_slash_plain)
qed

lemma cleaned_stack: "cleaned False (stack pre)"
  unfolding stack_def by (rule cleaned_foldl [OF cleaned_Nil]) (auto dest: split_slash_no_slash)

lemma Join_plain_tail:
  assumes ne: "tl' \<noteq> []" and pl: "\<forall>c \<in> set tl'. plain c"
  shows "Join (''citizenkane'' # pre @ tl') = join_slash (stack pre @ tl')"
proof -
  define P where "P = filter (\<lambda>e. e \<noteq> []) (''citizenkane'' # pre)"
  have P: "P \<noteq> []" "hd P = ''citizenkane''" by (simp_all add: P_def)
  have st: "stack pre = foldl (clean_step False) [] (split_slash (join_slash P))"
    by (simp add: stack_def P_def)
  have "filter (\<lambda>e. e \<noteq> []) tl' = tl'"
    using pl by (simp add: plain_def elem_ok_def filter_id_conv)
  then have f: "filter (\<lambda>e. e \<noteq> []) (''citizenkane'' # pre @ tl') = P @ tl'"
    by (simp add: P_def)
  have ns: "\<forall>c \<in> set tl'. CHR ''/'' \<notin> set c" using pl by (simp add: plain_def elem_ok_def)
  have nd: "''..'' \<notin> set tl'" "\<forall>c \<in> set tl'. elem_ok c" using pl by (auto simp: plain_def)
  have "P @ tl' \<noteq> []" "hd (P @ tl') \<noteq> []" using P by simp_all
  then have "join_slash (P @ tl') \<noteq> [] \<and> hd (join_slash (P @ tl')) = hd (hd (P @ tl'))"
    by (rule join_slash_hd)
  then have hdj: "join_slash (P @ tl') \<noteq> []" "hd (join_slash (P @ tl')) \<noteq> CHR ''/''"
    using P by simp_all
  have sp: "split_slash (join_slash (P @ tl')) = split_slash (join_slash P) @ tl'"
    by (rule split_join_append [OF P(1) ns])
  have fo: "foldl (clean_step False) [] (split_slash (join_slash (P @ tl'))) = stack pre @ tl'"
    unfolding sp foldl_append st by (rule foldl_elems [OF nd])
  have "Clean (join_slash (P @ tl')) = join_slash (stack pre @ tl')"
    using hdj ne by (simp add: Clean_def Let_def fo)
  then show ?thesis unfolding Join_def Let_def f using P(1) by simp
qed


lemma join_stack_inj:
  assumes "join_slash (stack pre @ t1) = join_slash (stack pre' @ t2)"
    and "t1 \<noteq> []" "t2 \<noteq> []" "\<forall>c \<in> set t1. plain c" "\<forall>c \<in> set t2. plain c"
  shows "stack pre @ t1 = stack pre' @ t2"
proof -
  have a: "\<forall>c \<in> set (stack pre @ t1). CHR ''/'' \<notin> set c"
    using cleaned_elems [OF cleaned_stack [of pre]] assms(4) by (auto simp: plain_def elem_ok_def)
  have b: "\<forall>c \<in> set (stack pre' @ t2). CHR ''/'' \<notin> set c"
    using cleaned_elems [OF cleaned_stack [of pre']] assms(5) by (auto simp: plain_def elem_ok_def)
  have e1: "split_slash (join_slash (stack pre @ t1)) = stack pre @ t1"
    using split_join [OF _ a] assms(2) by simp
  have e2: "split_slash (join_slash (stack pre' @ t2)) = stack pre' @ t2"
    using split_join [OF _ b] assms(3) by simp
  have "split_slash (join_slash (stack pre @ t1)) = split_slash (join_slash (stack pre' @ t2))"
    using assms(1) by (rule arg_cong)
  then show ?thesis unfolding e1 e2 .
qed


lemma Join_tail_inj:
  assumes "Join (''citizenkane'' # pre @ t1) = Join (''citizenkane'' # pre' @ t2)"
    and "t1 \<noteq> []" "t2 \<noteq> []" "\<forall>c \<in> set t1. plain c" "\<forall>c \<in> set t2. plain c"
  shows "stack pre @ t1 = stack pre' @ t2"
proof -
  have "join_slash (stack pre @ t1) = join_slash (stack pre' @ t2)"
    using assms(1) unfolding Join_plain_tail [OF assms(2,4)] Join_plain_tail [OF assms(3,5)] .
  then show ?thesis by (rule join_stack_inj [OF _ assms(2,3,4,5)])
qed

lemma plain_literals: "plain ''base''" "plain ''map''" "plain ''dst''"
  by (simp_all add: plain_def elem_ok_def)

lemma join_split: "join_slash (split_slash s) = s"
proof (induction s)
  case Nil
  show ?case by simp
next
  case (Cons c cs)
  obtain x xs where xs: "split_slash cs = x # xs"
    using split_slash_not_Nil [of cs] by (cases "split_slash cs") auto
  show ?case using Cons xs by (cases xs) auto
qed

lemma join_slash_flat_hd:
  "ys \<noteq> [] \<Longrightarrow> join_slash (join_slash ys # zs) = join_slash (ys @ zs)"
proof (induction ys rule: join_slash.induct)
  case 1
  then show ?case by simp
next
  case (2 x)
  show ?case by simp
next
  case (3 x y ys)
  then show ?case by (cases zs) auto
qed

lemma join_slash_flat:
  "ys \<noteq> [] \<Longrightarrow> join_slash (xs @ join_slash ys # zs) = join_slash (xs @ ys @ zs)"
proof (induction xs rule: join_slash.induct)
  case 1
  then show ?case by (simp add: join_slash_flat_hd)
next
  case (2 x)
  have "ys @ zs \<noteq> []" using 2 by simp
  then obtain u us where u: "ys @ zs = u # us" by (cases "ys @ zs") auto
  have "join_slash (join_slash ys # zs) = join_slash (u # us)"
    using join_slash_flat_hd [OF 2] u by simp
  then show ?case using u by simp
next
  case (3 x y ys')
  then show ?case by simp
qed

lemma Join_name:
  assumes "plain_path n"
  shows "Join (''citizenkane'' # pre @ n # zs) = Join (''citizenkane'' # pre @ split_slash n @ zs)"
proof -
  let ?F = "filter (\<lambda>e. e \<noteq> [])"
  have pl: "\<forall>c \<in> set (split_slash n). c \<noteq> []"
    using assms by (auto simp: plain_path_def plain_def elem_ok_def)
  then have fs: "?F (split_slash n) = split_slash n" by (simp add: filter_id_conv)
  have ne: "split_slash n \<noteq> []" by (rule split_slash_not_Nil)
  have "hd (split_slash n) \<noteq> []" using pl ne by simp
  then have "join_slash (split_slash n) \<noteq> []" using join_slash_hd [OF ne] by simp
  then have nn: "n \<noteq> []" by (simp add: join_split)
  have f1: "?F (''citizenkane'' # pre @ n # zs) = (''citizenkane'' # ?F pre) @ join_slash (split_slash n) # ?F zs"
    using nn by (simp add: join_split)
  have f2: "?F (''citizenkane'' # pre @ split_slash n @ zs) = (''citizenkane'' # ?F pre) @ split_slash n @ ?F zs"
    using fs by simp
  show ?thesis unfolding Join_def Let_def f1 f2 join_slash_flat [OF ne] by simp
qed

lemma plain_path_plain: "plain n \<Longrightarrow> plain_path n"
  by (simp add: plain_path_def plain_def elem_ok_def split_slash_plain)






lemma RandomString_ok:
  "32 \<le> length r \<Longrightarrow> RandomString r = Inr (EncodeToString (take 32 r), drop 32 r)"
  by (simp add: RandomString_def ReadFull_def)

lemma RandomString_panics: "length r < 32 \<Longrightarrow> \<exists>err. RandomString r = Inl err"
  by (simp add: RandomString_def ReadFull_def)

section \<open>The loops of main\<close>

lemma defaults_loop_id: "defaults_loop xs m = m"
  by (induction xs) (simp_all add: Let_def)

lemma apply_defaults_id: "apply_defaults m = m"
  by (simp add: apply_defaults_def defaults_loop_id)

lemma zoomOut_ok: "32 \<le> length r \<Longrightarrow> fst (zoomOut branch dir r) = Inr (drop 32 r)"
  by (simp add: zoomOut_def RandomString_ok Let_def)

lemma mapping_body_ok:
  assumes "32 \<le> length r"
  shows "mapping_body buildid src base mapid (f, t) r =
     (Inr (drop 32 r),
      dupBranch base (mapBranch src buildid mapid) @
      (if Clean f \<noteq> ''/'' then zoomIn (mapBranch src buildid mapid) (Clean f) else []) @
      snd (zoomOut (mapBranch src buildid mapid) (Clean t) r) @
      mergeLayer (dstBranch buildid) (mapBranch src buildid mapid))"
proof -
  obtain res out3 where z: "zoomOut (mapBranch src buildid mapid) (Clean t) r = (res, out3)"
    by (cases "zoomOut (mapBranch src buildid mapid) (Clean t) r") auto
  have "res = Inr (drop 32 r)" using zoomOut_ok [OF assms, of "mapBranch src buildid mapid" "Clean t"] z by simp
  then show ?thesis
    unfolding mapping_body_def Let_def fst_conv snd_conv using z Clean_not_Nil [of t] by simp
qed

lemma mapping_loop_ok:
  "32 * length ms \<le> length r \<Longrightarrow>
   fst (mapping_loop buildid src base mapid ms r) = Inr (drop (32 * length ms) r)"
proof (induction ms arbitrary: mapid r)
  case Nil
  show ?case by simp
next
  case (Cons m ms)
  obtain f t where m: "m = (f, t)" by (cases m) auto
  have r: "32 \<le> length r" using Cons.prems by simp
  have "32 * length ms \<le> length (drop 32 r)" using Cons.prems by simp
  then have "fst (mapping_loop buildid src base (Suc mapid) ms (drop 32 r)) = Inr (drop (32 * length ms) (drop 32 r))"
    by (rule Cons.IH)
  then obtain out where "mapping_loop buildid src base (Suc mapid) ms (drop 32 r) =
      (Inr (drop (32 * length ms) (drop 32 r)), out)"
    by (cases "mapping_loop buildid src base (Suc mapid) ms (drop 32 r)") auto
  then show ?case
    by (simp add: m mapping_body_ok [OF r] add.commute)
qed

lemma sources_loop_ok:
  "32 * sum_list (map (\<lambda>src. length (Mapping src)) srcs) \<le> length r \<Longrightarrow>
   fst (sources_loop buildid srcs r) =
     Inr (drop (32 * sum_list (map (\<lambda>src. length (Mapping src)) srcs)) r)"
proof (induction srcs arbitrary: r)
  case Nil
  show ?case by simp
next
  case (Cons s srcs)
  let ?k = "32 * length (Mapping s)"
  let ?n = "32 * sum_list (map (\<lambda>src. length (Mapping src)) srcs)"
  have k: "?k \<le> length r" and n: "?n \<le> length (drop ?k r)" using Cons.prems by simp_all
  obtain out where ml: "mapping_loop buildid s (baseBranch s buildid) 0 (Mapping s) r = (Inr (drop ?k r), out)"
    using mapping_loop_ok [OF k, of buildid s "baseBranch s buildid" 0]
    by (cases "mapping_loop buildid s (baseBranch s buildid) 0 (Mapping s) r") auto
  have "fst (sources_loop buildid srcs (drop ?k r)) = Inr (drop ?n (drop ?k r))"
    using n by (rule Cons.IH)
  then obtain out' where "sources_loop buildid srcs (drop ?k r) = (Inr (drop ?n (drop ?k r)), out')"
    by (cases "sources_loop buildid srcs (drop ?k r)") auto
  then show ?case using ml by (simp add: add.commute distrib_left)
qed

lemma new_buildid_ok:
  "32 \<le> length r \<Longrightarrow> new_buildid r = Inr (take 4 (EncodeToString (take 32 r)), drop 32 r)"
  by (simp add: new_buildid_def RandomString_ok)

lemma main_fatal:
  assumes "32 \<le> length r" "load_manifest e = Inl err"
  shows "fst (main e r) = Fatal err"
  using assms by (simp add: main_def new_buildid_ok Let_def)

lemma main_exit0:
  assumes "load_manifest e = Inr m"
    and "32 + 32 * sum_list (map (\<lambda>src. length (Mapping src)) (Sources m)) \<le> length r"
  shows "fst (main e r) = Exit0"
proof -
  let ?n = "32 * sum_list (map (\<lambda>src. length (Mapping src)) (Sources m))"
  let ?b = "take 4 (EncodeToString (take 32 r))"
  have r: "32 \<le> length r" and n: "?n \<le> length (drop 32 r)" using assms(2) by simp_all
  obtain out where sl: "sources_loop ?b (Sources m) (drop 32 r) = (Inr (drop ?n (drop 32 r)), out)"
    using sources_loop_ok [OF n, of ?b]
    by (cases "sources_loop ?b (Sources m) (drop 32 r)") auto
  show ?thesis using assms(1) sl by (simp add: main_def new_buildid_ok [OF r] Let_def apply_defaults_id)
qed

lemma load_manifest_fails:
  "(\<exists>err. load_manifest e = Inl err) =
     ((\<exists>err. os_Open e ''UPSTREAM'' = Inl err) \<or>
      (\<exists>f err. os_Open e ''UPSTREAM'' = Inr f \<and> ioutil_ReadAll e f = Inl err) \<or>
      (\<exists>f data err. os_Open e ''UPSTREAM'' = Inr f \<and> ioutil_ReadAll e f = Inr data \<and>
         toml_Decode e data = Inl err))"
  by (auto simp: load_manifest_def split: sum.splits)

section \<open>Branch names under a plain build identifier\<close>










section \<open>Path cleaning\<close>

text \<open>
  C9. Path cleaning is idempotent: cleaning a cleaned path gives the same path, for every
  path. In particular \<open>/a/b/\<close> is cleaned to \<open>/a/b\<close> and \<open>a//b/..\<close> to \<open>a\<close>.
\<close>

theorem Clean_idempotent:
  "Clean (Clean p) = Clean p \<and> Clean ''/a/b/'' = ''/a/b'' \<and> Clean ''a//b/..'' = ''a''"
proof -
  have "Clean ''/a/b/'' = ''/a/b''" by code_simp
  moreover have "Clean ''a//b/..'' = ''a''" by code_simp
  ultimately show ?thesis using Clean_Clean [of p] by simp
qed

text \<open>
  C10, as amended. Path cleaning never gives the empty string, and the identity mapping's
  to-path \<open>/\<close> is cleaned to \<open>/\<close>, so the guard on the to-path always holds. When the
  random source delivers the 32 bytes that \<open>zoomOut\<close> draws, every round of the mapping
  loop writes the zoom-out step, comment and command, on the map branch with the cleaned
  to-path, between the duplicate (and the zoom-in, when there is one) and the merge.
\<close>

theorem zoomOut_emitted:
  assumes "32 \<le> length r"
    and "tmp = take 8 (EncodeToString (take 32 r))"
    and "mapB = mapBranch src buildid mapid"
  shows "Clean p \<noteq> [] \<and> Clean ''/'' = ''/'' \<and>
   mapping_body buildid src base mapid (from, to) r =
     (Inr (drop 32 r),
      dupBranch base mapB @
      (if Clean from \<noteq> ''/'' then zoomIn mapB (Clean from) else []) @
      (''# zoomOut('' @ mapB @ '', '' @ Clean to @ '')\<newline>'' @
       ''(\<newline>'' @ tab @ ''cd $(git rev-parse --show-toplevel) '' @ bslash @
       ''\<newline>'' @ tab @ ''&& git filter-branch -f --tree-filter '' @ dq @
       ''mkdir .'' @ sq @ tmp @ sq @ '' && mv * .'' @ sq @ tmp @ sq @
       ''/ && mkdir -p '' @ sq @ Clean to @ sq @ '' && mv .'' @ sq @ tmp @ sq @ ''/* '' @
       sq @ Clean to @ sq @ ''/ && rm -r .'' @ sq @ tmp @ sq @ dq @ '' '' @
       sq @ mapB @ sq @ ''\<newline>)\<newline>\<newline>'') @
      mergeLayer (dstBranch buildid) mapB)"
proof -
  have root: "Clean ''/'' = ''/''" by code_simp
  have z: "zoomOut mapB (Clean to) r =
     (Inr (drop 32 r),
      ''# zoomOut('' @ mapB @ '', '' @ Clean to @ '')\<newline>'' @
       ''(\<newline>'' @ tab @ ''cd $(git rev-parse --show-toplevel) '' @ bslash @
       ''\<newline>'' @ tab @ ''&& git filter-branch -f --tree-filter '' @ dq @
       ''mkdir .'' @ sq @ tmp @ sq @ '' && mv * .'' @ sq @ tmp @ sq @
       ''/ && mkdir -p '' @ sq @ Clean to @ sq @ '' && mv .'' @ sq @ tmp @ sq @ ''/* '' @
       sq @ Clean to @ sq @ ''/ && rm -r .'' @ sq @ tmp @ sq @ dq @ '' '' @
       sq @ mapB @ sq @ ''\<newline>)\<newline>\<newline>'')"
    unfolding zoomOut_def Let_def RandomString_ok [OF assms(1)] assms(2) by simp
  have body: "mapping_body buildid src base mapid (from, to) r =
     (Inr (drop 32 r),
      dupBranch base mapB @
      (if Clean from \<noteq> ''/'' then zoomIn mapB (Clean from) else []) @
      snd (zoomOut mapB (Clean to) r) @
      mergeLayer (dstBranch buildid) mapB)"
    unfolding assms(3) by (rule mapping_body_ok [OF assms(1)])
  show ?thesis using Clean_not_Nil [of p] root unfolding body z snd_conv by blast
qed

theorem zoomOut_emitted_witness:
  "mapping_body ''0000'' docs_src ''citizenkane/0000/base/docs'' 0 (''/'', ''/'') (replicate 32 0) =
     (Inr [],
      dupBranch ''citizenkane/0000/base/docs'' ''citizenkane/0000/map/docs/0'' @
      (''# zoomOut(citizenkane/0000/map/docs/0, /)\<newline>'' @
       ''(\<newline>'' @ tab @ ''cd $(git rev-parse --show-toplevel) '' @ bslash @
       ''\<newline>'' @ tab @ ''&& git filter-branch -f --tree-filter '' @ dq @
       ''mkdir .'' @ sq @ ''00000000'' @ sq @ '' && mv * .'' @ sq @ ''00000000'' @ sq @
       ''/ && mkdir -p '' @ sq @ ''/'' @ sq @ '' && mv .'' @ sq @ ''00000000'' @ sq @ ''/* '' @
       sq @ ''/'' @ sq @ ''/ && rm -r .'' @ sq @ ''00000000'' @ sq @ dq @ '' '' @
       sq @ ''citizenkane/0000/map/docs/0'' @ sq @ ''\<newline>)\<newline>\<newline>'') @
      mergeLayer ''citizenkane/0000/dst'' ''citizenkane/0000/map/docs/0'')"
proof -
  have r: "32 \<le> length (replicate 32 (0::8 word))" by simp
  have t: "''00000000'' = take 8 (EncodeToString (take 32 (replicate 32 (0::8 word))))"
    by code_simp
  have m: "''citizenkane/0000/map/docs/0'' = mapBranch docs_src ''0000'' 0" by code_simp
  have c: "Clean ''/'' = ''/''" by code_simp
  have d: "dstBranch ''0000'' = ''citizenkane/0000/dst''" by code_simp
  show ?thesis
    using zoomOut_emitted [OF r t m, of "''/''" "''citizenkane/0000/base/docs''" "''/''" "''/''"]
    by (simp only: c d) simp
qed

text \<open>
  C10 as stated fails: when the random source fails, the round writes the duplicate and
  the comment line of \<open>zoomOut\<close>, and the run panics before the command is written.
\<close>

theorem zoomOut_missing_on_panic:
  "mapping_body ''0000'' docs_src ''citizenkane/0000/base/docs'' 0 (''/'', ''/'') [] =
     (Inl ''EOF'',
      dupBranch ''citizenkane/0000/base/docs'' ''citizenkane/0000/map/docs/0'' @
      ''# zoomOut(citizenkane/0000/map/docs/0, /)\<newline>'')"
  by code_simp

section \<open>Branch names and the build identifier\<close>

text \<open>
  C4, as amended. Within one build id, two different mapping indices of a source never
  give the same map branch, whatever the name. For sources whose names are paths of plain
  elements, a base branch, a map branch and the destination branch are never equal, and
  two different names give different base branches and different map branches.
\<close>

theorem branch_names_injective:
  "(i \<noteq> j \<longrightarrow> mapBranch src b i \<noteq> mapBranch src b j) \<and>
   (plain_path (Name s1) \<and> plain_path (Name s2) \<longrightarrow>
      baseBranch s1 b \<noteq> mapBranch s2 b j \<and>
      dstBranch b \<noteq> baseBranch s1 b \<and> dstBranch b \<noteq> mapBranch s1 b i \<and>
      (Name s1 \<noteq> Name s2 \<longrightarrow>
         baseBranch s1 b \<noteq> baseBranch s2 b \<and> mapBranch s1 b i \<noteq> mapBranch s2 b j))"
proof -
  have idx: "i = j" if eq: "mapBranch src b i = mapBranch src b j"
  proof -
    have "Join (''citizenkane'' # [b, ''map'', Name src] @ [itoa i]) =
          Join (''citizenkane'' # [b, ''map'', Name src] @ [itoa j])"
      using eq by (simp add: mapBranch_def)
    then have "stack [b, ''map'', Name src] @ [itoa i] = stack [b, ''map'', Name src] @ [itoa j]"
      by (rule Join_tail_inj) (simp_all add: itoa_plain)
    then show ?thesis by (simp add: itoa_inj)
  qed
  have names: "baseBranch s1 b \<noteq> mapBranch s2 b j \<and>
      dstBranch b \<noteq> baseBranch s1 b \<and> dstBranch b \<noteq> mapBranch s1 b i \<and>
      (Name s1 \<noteq> Name s2 \<longrightarrow>
         baseBranch s1 b \<noteq> baseBranch s2 b \<and> mapBranch s1 b i \<noteq> mapBranch s2 b j)"
    if p1: "plain_path (Name s1)" and p2: "plain_path (Name s2)"
  proof -
    let ?e1 = "split_slash (Name s1)" and ?e2 = "split_slash (Name s2)"
    have e1: "\<forall>c \<in> set ?e1. plain c" and e2: "\<forall>c \<in> set ?e2. plain c"
      using p1 p2 by (simp_all add: plain_path_def)
    have base: "baseBranch s b = Join (''citizenkane'' # [b] @ (''base'' # split_slash (Name s)))"
      if "plain_path (Name s)" for s
      using Join_name [OF that, of "[b, ''base'']" "[]"] by (simp add: baseBranch_def)
    have mapb: "mapBranch s b k = Join (''citizenkane'' # [b] @ (''map'' # split_slash (Name s) @ [itoa k]))"
      if "plain_path (Name s)" for s k
      using Join_name [OF that, of "[b, ''map'']" "[itoa k]"] by (simp add: mapBranch_def)
    have dst: "dstBranch b = Join (''citizenkane'' # [b] @ [''dst''])"
      by (simp add: dstBranch_def)
    have c1: "baseBranch s1 b \<noteq> mapBranch s2 b j"
    proof
      assume "baseBranch s1 b = mapBranch s2 b j"
      then have "Join (''citizenkane'' # [b] @ (''base'' # ?e1)) =
                 Join (''citizenkane'' # [b] @ (''map'' # ?e2 @ [itoa j]))"
        by (simp only: base [OF p1] mapb [OF p2])
      then have "stack [b] @ (''base'' # ?e1) = stack [b] @ (''map'' # ?e2 @ [itoa j])"
        by (rule Join_tail_inj) (simp_all add: e1 e2 itoa_plain plain_literals)
      then show False by simp
    qed
    have c2: "dstBranch b \<noteq> baseBranch s1 b"
    proof
      assume "dstBranch b = baseBranch s1 b"
      then have "Join (''citizenkane'' # [b] @ [''dst'']) =
                 Join (''citizenkane'' # [b] @ (''base'' # ?e1))"
        by (simp only: base [OF p1] dst)
      then have "stack [b] @ [''dst''] = stack [b] @ (''base'' # ?e1)"
        by (rule Join_tail_inj) (simp_all add: e1 plain_literals)
      then show False by simp
    qed
    have c3: "dstBranch b \<noteq> mapBranch s1 b i"
    proof
      assume "dstBranch b = mapBranch s1 b i"
      then have "Join (''citizenkane'' # [b] @ [''dst'']) =
                 Join (''citizenkane'' # [b] @ (''map'' # ?e1 @ [itoa i]))"
        by (simp only: mapb [OF p1] dst)
      then have "stack [b] @ [''dst''] = stack [b] @ (''map'' # ?e1 @ [itoa i])"
        by (rule Join_tail_inj) (simp_all add: e1 itoa_plain plain_literals)
      then show False by simp
    qed
    have c4: "Name s1 = Name s2" if "baseBranch s1 b = baseBranch s2 b"
    proof -
      have "Join (''citizenkane'' # [b] @ (''base'' # ?e1)) =
            Join (''citizenkane'' # [b] @ (''base'' # ?e2))"
        using that by (simp only: base [OF p1] base [OF p2])
      then have "stack [b] @ (''base'' # ?e1) = stack [b] @ (''base'' # ?e2)"
        by (rule Join_tail_inj) (simp_all add: e1 e2 plain_literals)
      then have "?e1 = ?e2" by simp
      then have "join_slash ?e1 = join_slash ?e2" by simp
      then show ?thesis by (simp only: join_split)
    qed
    have c5: "Name s1 = Name s2" if "mapBranch s1 b i = mapBranch s2 b j"
    proof -
      have "Join (''citizenkane'' # [b] @ (''map'' # ?e1 @ [itoa i])) =
            Join (''citizenkane'' # [b] @ (''map'' # ?e2 @ [itoa j]))"
        using that by (simp only: mapb [OF p1] mapb [OF p2])
      then have "stack [b] @ (''map'' # ?e1 @ [itoa i]) = stack [b] @ (''map'' # ?e2 @ [itoa j])"
        by (rule Join_tail_inj) (simp_all add: e1 e2 itoa_plain plain_literals)
      then have "?e1 @ [itoa i] = ?e2 @ [itoa j]" by simp
      then have "?e1 = ?e2" by simp
      then have "join_slash ?e1 = join_slash ?e2" by simp
      then show ?thesis by (simp only: join_split)
    qed
    show ?thesis using c1 c2 c3 c4 c5 by blast
  qed
  show ?thesis using idx names by blast
qed

theorem branch_names_injective_witness:
  "plain_path ''docker/docker'' \<and> plain_path ''docs'' \<and>
   mapBranch (src_named ''docs'') ''0000'' 0 \<noteq> mapBranch (src_named ''docs'') ''0000'' 1 \<and>
   baseBranch (src_named ''docker/docker'') ''0000'' \<noteq> mapBranch (src_named ''docs'') ''0000'' 1 \<and>
   dstBranch ''0000'' \<noteq> baseBranch (src_named ''docker/docker'') ''0000'' \<and>
   dstBranch ''0000'' \<noteq> mapBranch (src_named ''docker/docker'') ''0000'' 0 \<and>
   baseBranch (src_named ''docker/docker'') ''0000'' \<noteq> baseBranch (src_named ''docs'') ''0000'' \<and>
   mapBranch (src_named ''docker/docker'') ''0000'' 0 \<noteq> mapBranch (src_named ''docs'') ''0000'' 1"
proof -
  have p: "plain_path ''docker/docker''" "plain_path ''docs''"
    by (simp_all add: plain_path_def plain_def elem_ok_def)
  show ?thesis
    using p branch_names_injective [of 0 1 "src_named ''docs''" "''0000''" "src_named ''docker/docker''" "src_named ''docs''"]
    by (simp add: src_named_def)
qed

text \<open>
  C4 as stated fails: \<open>path.Join\<close> cleans the name, so the different names \<open>a\<close> and
  \<open>a/\<close> give the same base branch.
\<close>

theorem branch_names_collide:
  "baseBranch (src_named ''a'') ''0000'' = baseBranch (src_named ''a/'') ''0000'' \<and> ''a'' \<noteq> ''a/''"
  by code_simp




section \<open>The generated script\<close>

text \<open>
  C6, as amended. For a manifest of exactly two sources with non-empty names, each with
  exactly one mapping, and a random source that delivers, the run exits with status 0
  and the script is: the header, the fetch of the first source, the fetch of the second,
  the duplicate of \<open>master\<close> to the destination branch, then for each source in manifest
  order one duplicate to its map branch, a zoom-in only when the cleaned from-path is
  not \<open>/\<close>, a zoom-out only when the cleaned to-path is not empty, and one merge.
\<close>

theorem two_sources_script:
  assumes "load_manifest e = Inr \<lparr>Sources = [s1, s2]\<rparr>"
    and "Mapping s1 = [(f1, t1)]" and "Mapping s2 = [(f2, t2)]"
    and "Name s1 \<noteq> []" and "Name s2 \<noteq> []"
    and "new_buildid r = Inr (b, r1)" and "64 \<le> length r1"
  shows "main e r =
    (Exit0,
     ''# Starting build '' @ b @ ''\<newline>'' @ ''set -e\<newline>'' @
     ''# Loaded 2 sources from ./UPSTREAM\<newline>\<newline>'' @
     fetch s1 b @
     fetch s2 b @
     dupBranch ''master'' (dstBranch b) @
     dupBranch (baseBranch s1 b) (mapBranch s1 b 0) @
     (if Clean f1 \<noteq> ''/'' then zoomIn (mapBranch s1 b 0) (Clean f1) else []) @
     (if Clean t1 \<noteq> [] then snd (zoomOut (mapBranch s1 b 0) (Clean t1) r1) else []) @
     mergeLayer (dstBranch b) (mapBranch s1 b 0) @
     dupBranch (baseBranch s2 b) (mapBranch s2 b 0) @
     (if Clean f2 \<noteq> ''/'' then zoomIn (mapBranch s2 b 0) (Clean f2) else []) @
     (if Clean t2 \<noteq> [] then snd (zoomOut (mapBranch s2 b 0) (Clean t2) (drop 32 r1)) else []) @
     mergeLayer (dstBranch b) (mapBranch s2 b 0))"
proof -
  define seq1 where "seq1 =
     dupBranch (baseBranch s1 b) (mapBranch s1 b 0) @
     (if Clean f1 \<noteq> ''/'' then zoomIn (mapBranch s1 b 0) (Clean f1) else []) @
     snd (zoomOut (mapBranch s1 b 0) (Clean t1) r1) @
     mergeLayer (dstBranch b) (mapBranch s1 b 0)"
  define seq2 where "seq2 =
     dupBranch (baseBranch s2 b) (mapBranch s2 b 0) @
     (if Clean f2 \<noteq> ''/'' then zoomIn (mapBranch s2 b 0) (Clean f2) else []) @
     snd (zoomOut (mapBranch s2 b 0) (Clean t2) (drop 32 r1)) @
     mergeLayer (dstBranch b) (mapBranch s2 b 0)"
  have r1: "32 \<le> length r1" and r2: "32 \<le> length (drop 32 r1)" using assms(7) by simp_all
  have two: "itoa (Suc (Suc 0)) = ''2''" by (simp add: itoa.simps digit_def)
  have ml1: "mapping_loop b s1 (baseBranch s1 b) 0 [(f1, t1)] r1 = (Inr (drop 32 r1), seq1)"
    unfolding seq1_def by (simp add: mapping_body_ok [OF r1])
  have ml2: "mapping_loop b s2 (baseBranch s2 b) 0 [(f2, t2)] (drop 32 r1) =
      (Inr (drop 32 (drop 32 r1)), seq2)"
    unfolding seq2_def by (simp add: mapping_body_ok [OF r2])
  have sl: "sources_loop b [s1, s2] r1 = (Inr (drop 32 (drop 32 r1)), seq1 @ seq2)"
    by (simp add: assms(2,3) ml1 ml2 del: mapping_loop.simps)
  have fl: "fetch_loop b [s1, s2] = fetch s1 b @ fetch s2 b"
    using assms(4,5) by simp
  have "main e r = (Exit0,
     (''# Starting build '' @ b @ ''\<newline>'' @ ''set -e\<newline>'') @
     (''# Loaded '' @ ''2'' @ '' sources from ./UPSTREAM\<newline>\<newline>'') @
     (fetch s1 b @ fetch s2 b) @
     dupBranch ''master'' (dstBranch b) @ seq1 @ seq2)"
    unfolding main_def assms(1,6) apply_defaults_id Let_def
    by (simp add: sl fl two del: fetch_loop.simps sources_loop.simps)
  then show ?thesis
    unfolding seq1_def seq2_def using Clean_not_Nil [of t1] Clean_not_Nil [of t2] by simp
qed

theorem two_sources_script_witness:
  "main (env_of \<lparr>Sources = [docs_src, lib_src]\<rparr>) (replicate 96 0) =
    (Exit0,
     ''# Starting build 0000\<newline>'' @ ''set -e\<newline>'' @
     ''# Loaded 2 sources from ./UPSTREAM\<newline>\<newline>'' @
     fetch docs_src ''0000'' @
     fetch lib_src ''0000'' @
     dupBranch ''master'' ''citizenkane/0000/dst'' @
     dupBranch ''citizenkane/0000/base/docs'' ''citizenkane/0000/map/docs/0'' @
     snd (zoomOut ''citizenkane/0000/map/docs/0'' ''/documentation'' (replicate 64 0)) @
     mergeLayer ''citizenkane/0000/dst'' ''citizenkane/0000/map/docs/0'' @
     dupBranch ''citizenkane/0000/base/lib'' ''citizenkane/0000/map/lib/0'' @
     zoomIn ''citizenkane/0000/map/lib/0'' ''/src'' @
     snd (zoomOut ''citizenkane/0000/map/lib/0'' ''/lib'' (replicate 32 0)) @
     mergeLayer ''citizenkane/0000/dst'' ''citizenkane/0000/map/lib/0'')"
proof -
  let ?m = "\<lparr>Sources = [docs_src, lib_src]\<rparr>"
  have l: "load_manifest (env_of ?m) = Inr ?m" by (simp add: load_manifest_def env_of_def)
  have nb: "new_buildid (replicate 96 0) = Inr (''0000'', replicate 64 0)" by code_simp
  have m: "Mapping docs_src = [(''/'', ''/documentation'')]" "Mapping lib_src = [(''/src/'', ''/lib'')]"
    "Name docs_src \<noteq> []" "Name lib_src \<noteq> []"
    by (simp_all add: docs_src_def lib_src_def)
  have c: "Clean ''/'' = ''/''" "Clean ''/documentation'' = ''/documentation''"
    "Clean ''/src/'' = ''/src''" "Clean ''/lib'' = ''/lib''"
    by code_simp+
  have b: "dstBranch ''0000'' = ''citizenkane/0000/dst''"
    "baseBranch docs_src ''0000'' = ''citizenkane/0000/base/docs''"
    "mapBranch docs_src ''0000'' 0 = ''citizenkane/0000/map/docs/0''"
    "baseBranch lib_src ''0000'' = ''citizenkane/0000/base/lib''"
    "mapBranch lib_src ''0000'' 0 = ''citizenkane/0000/map/lib/0''"
    by code_simp+
  have d: "drop 32 (replicate 64 (0::8 word)) = replicate 32 0" by simp
  show ?thesis
    using two_sources_script [OF l m nb] by (simp only: c b d) simp
qed

text \<open>
  C6 as stated fails when one of the two sources has no name: the script then has one
  fetch and a skip notice, not two fetches.
\<close>

theorem two_sources_one_unnamed:
  "Mapping unnamed_src = [(''/'', ''/'')] \<and> Mapping lib_src = [(''/src/'', ''/lib'')] \<and>
   main (env_of \<lparr>Sources = [unnamed_src, lib_src]\<rparr>) (replicate 96 0) =
    (Exit0,
     ''# Starting build 0000\<newline>'' @ ''set -e\<newline>'' @
     ''# Loaded 2 sources from ./UPSTREAM\<newline>\<newline>'' @
     ''skipping unnamed source\<newline>'' @
     fetch lib_src ''0000'' @
     dupBranch ''master'' ''citizenkane/0000/dst'' @
     dupBranch ''citizenkane/0000/base'' ''citizenkane/0000/map/0'' @
     snd (zoomOut ''citizenkane/0000/map/0'' ''/'' (replicate 64 0)) @
     mergeLayer ''citizenkane/0000/dst'' ''citizenkane/0000/map/0'' @
     dupBranch ''citizenkane/0000/base/lib'' ''citizenkane/0000/map/lib/0'' @
     zoomIn ''citizenkane/0000/map/lib/0'' ''/src'' @
     snd (zoomOut ''citizenkane/0000/map/lib/0'' ''/lib'' (replicate 32 0)) @
     mergeLayer ''citizenkane/0000/dst'' ''citizenkane/0000/map/lib/0'') \<and>
   fetch_loop ''0000'' [unnamed_src, lib_src] \<noteq> fetch unnamed_src ''0000'' @ fetch lib_src ''0000''"
  by code_simp

text \<open>
  C1 fails on the code. The defaults are set on a copy, so for the source of the spec's
  example, whose branch is unset, the fetch command names no remote branch: the refspec
  begins with the colon.
\<close>

theorem unset_branch_fetches_empty_ref:
  "Branch docs_src = [] \<and>
   main (env_of \<lparr>Sources = [docs_src]\<rparr>) (replicate 64 0) =
    (Exit0,
     ''# Starting build 0000\<newline>'' @ ''set -e\<newline>'' @
     ''# Loaded 1 sources from ./UPSTREAM\<newline>\<newline>'' @
     ''# [0000] fetch(docs)\<newline>'' @
     ''git fetch -f https://example/docs.git :citizenkane/0000/base/docs\<newline>\<newline>'' @
     dupBranch ''master'' ''citizenkane/0000/dst'' @
     dupBranch ''citizenkane/0000/base/docs'' ''citizenkane/0000/map/docs/0'' @
     snd (zoomOut ''citizenkane/0000/map/docs/0'' ''/documentation'' (replicate 32 0)) @
     mergeLayer ''citizenkane/0000/dst'' ''citizenkane/0000/map/docs/0'')"
  by code_simp

text \<open>
  C2 fails on the code, for the same reason: a source with an empty mapping list gets
  no duplicate to a map branch, no zoom and no merge; the script ends with the duplicate
  to the destination branch.
\<close>

theorem empty_mapping_emits_nothing:
  "Mapping (docs_src\<lparr>Branch := ''master'', Mapping := []\<rparr>) = [] \<and>
   main (env_of \<lparr>Sources = [docs_src\<lparr>Branch := ''master'', Mapping := []\<rparr>]\<rparr>) (replicate 64 0) =
    (Exit0,
     ''# Starting build 0000\<newline>'' @ ''set -e\<newline>'' @
     ''# Loaded 1 sources from ./UPSTREAM\<newline>\<newline>'' @
     ''# [0000] fetch(docs)\<newline>'' @
     ''git fetch -f https://example/docs.git master:citizenkane/0000/base/docs\<newline>\<newline>'' @
     dupBranch ''master'' ''citizenkane/0000/dst'')"
  by code_simp

text \<open>
  C3 fails on the code. The fetch loop skips a source without a name, but the mapping
  loop does not: the source's mappings are still written, from the base branch
  \<open>citizenkane/0000/base\<close> that no fetch has created.
\<close>

theorem unnamed_source_is_mapped:
  "Name unnamed_src = [] \<and>
   main (env_of \<lparr>Sources = [unnamed_src]\<rparr>) (replicate 64 0) =
    (Exit0,
     ''# Starting build 0000\<newline>'' @ ''set -e\<newline>'' @
     ''# Loaded 1 sources from ./UPSTREAM\<newline>\<newline>'' @
     ''skipping unnamed source\<newline>'' @
     dupBranch ''master'' ''citizenkane/0000/dst'' @
     dupBranch ''citizenkane/0000/base'' ''citizenkane/0000/map/0'' @
     snd (zoomOut ''citizenkane/0000/map/0'' ''/'' (replicate 32 0)) @
     mergeLayer ''citizenkane/0000/dst'' ''citizenkane/0000/map/0'')"
  by code_simp

text \<open>
  C7 fails on the code: the skip notice is written without the comment character, so
  the script has the line \<open>skipping unnamed source\<close> as a command.
\<close>

theorem skip_notice_is_no_comment:
  "main (env_of \<lparr>Sources = [unnamed_src\<lparr>Mapping := []\<rparr>]\<rparr>) (replicate 32 0) =
    (Exit0,
     ''# Starting build 0000\<newline>'' @ ''set -e\<newline>'' @
     ''# Loaded 1 sources from ./UPSTREAM\<newline>\<newline>'' @
     ''skipping unnamed source\<newline>'' @
     dupBranch ''master'' ''citizenkane/0000/dst'') \<and>
   hd ''skipping unnamed source\<newline>'' \<noteq> CHR ''#''"
  by code_simp

section \<open>How the process ends\<close>

text \<open>
  C8, as amended. When the random source delivers every byte the run asks for (32 for
  the build id and 32 for each mapping, none of them when the manifest fails to load),
  the exit status is not 0 exactly when the manifest cannot be opened, cannot be read or
  does not decode; then the run ends in \<open>log.Fatal\<close> with that error. In every other
  case, whatever the names and mapping lists of the sources, it exits with status 0.
\<close>

theorem exit_status:
  assumes "32 + 32 * (case load_manifest e of Inl err \<Rightarrow> 0
                       | Inr m \<Rightarrow> sum_list (map (\<lambda>src. length (Mapping src)) (Sources m))) \<le> length r"
  shows "(exit_code (fst (main e r)) \<noteq> 0) =
           ((\<exists>err. os_Open e ''UPSTREAM'' = Inl err) \<or>
            (\<exists>f err. os_Open e ''UPSTREAM'' = Inr f \<and> ioutil_ReadAll e f = Inl err) \<or>
            (\<exists>f data err. os_Open e ''UPSTREAM'' = Inr f \<and> ioutil_ReadAll e f = Inr data \<and>
               toml_Decode e data = Inl err))
         \<and> (\<forall>err. load_manifest e = Inl err \<longrightarrow> fst (main e r) = Fatal err)
         \<and> (\<forall>m. load_manifest e = Inr m \<longrightarrow> fst (main e r) = Exit0)"
proof (cases "load_manifest e")
  case (Inl err)
  then have "fst (main e r) = Fatal err" using assms by (intro main_fatal) simp_all
  moreover have "\<exists>err. load_manifest e = Inl err" using Inl by blast
  ultimately show ?thesis using Inl load_manifest_fails [of e] by simp
next
  case (Inr m)
  then have "fst (main e r) = Exit0" using assms by (intro main_exit0 [of e m]) simp_all
  moreover have "\<not> (\<exists>err. load_manifest e = Inl err)" using Inr by simp
  ultimately show ?thesis using Inr load_manifest_fails [of e] by simp
qed

theorem exit_status_witness:
  "load_manifest (env_of \<lparr>Sources = [unnamed_src, docs_src\<lparr>Mapping := []\<rparr>]\<rparr>) =
     Inr \<lparr>Sources = [unnamed_src, docs_src\<lparr>Mapping := []\<rparr>]\<rparr> \<and>
   fst (main (env_of \<lparr>Sources = [unnamed_src, docs_src\<lparr>Mapping := []\<rparr>]\<rparr>) (replicate 64 0)) = Exit0 \<and>
   load_manifest env_missing = Inl ''open UPSTREAM: no such file or directory'' \<and>
   fst (main env_missing (replicate 32 0)) = Fatal ''open UPSTREAM: no such file or directory''"
proof -
  let ?m = "\<lparr>Sources = [unnamed_src, docs_src\<lparr>Mapping := []\<rparr>]\<rparr>"
  have l1: "load_manifest (env_of ?m) = Inr ?m" by (simp add: load_manifest_def env_of_def)
  have l2: "load_manifest env_missing = Inl ''open UPSTREAM: no such file or directory''"
    by (simp add: load_manifest_def env_missing_def)
  have "fst (main (env_of ?m) (replicate 64 0)) = Exit0"
    using exit_status [of "env_of ?m" "replicate 64 0"] l1
    by (simp add: unnamed_src_def docs_src_def)
  moreover have "fst (main env_missing (replicate 32 0)) = Fatal ''open UPSTREAM: no such file or directory''"
    using exit_status [of env_missing "replicate 32 0"] l2 by simp
  ultimately show ?thesis using l1 l2 by simp
qed

text \<open>
  C8 as stated fails: with a manifest that opens and decodes, the run still ends
  abnormally when the random source fails, here at the first \<open>zoomOut\<close>.
\<close>

theorem exit_status_random_source_fails:
  "load_manifest (env_of \<lparr>Sources = [docs_src]\<rparr>) = Inr \<lparr>Sources = [docs_src]\<rparr> \<and>
   fst (main (env_of \<lparr>Sources = [docs_src]\<rparr>) (replicate 32 0)) = Panicked ''EOF'' \<and>
   exit_code (fst (main (env_of \<lparr>Sources = [docs_src]\<rparr>) (replicate 32 0))) = 2"
  by code_simp

end
